theory Spec2Isabelle
  imports Main
begin

section \<open>Hushgram: the user directory, presence and the cascading deletion\<close>

text \<open>
  The handlers of the users module (\<^verbatim>\<open>_deleteUserAndData\<close>, \<^verbatim>\<open>cleanupOfflineUsers\<close>,
  \<^verbatim>\<open>createUser\<close>, \<^verbatim>\<open>getOnlineUsers\<close>) over an explicit store. A table is the list of its
  documents in creation order; a document is its \<^verbatim>\<open>_id\<close> paired with its fields.
  \<^verbatim>\<open>Date.now()\<close> is an argument \<open>now\<close>, in milliseconds; the stored numbers (\<open>lastSeen\<close>,
  \<open>memberCount\<close>) are integers. A thrown exception is \<open>Inl\<close>.

  The callbacks handed to \<^verbatim>\<open>Promise.all\<close> are run one after the other, in the order of the
  collected rows. An async callback runs up to its first \<^verbatim>\<open>await\<close> as soon as it is created,
  so in the membership step every \<^verbatim>\<open>ctx.db.get\<close> may be issued before the first patch; that
  order is modelled too (\<open>leave_groups_reads_first\<close>) and gives the same store whenever the
  user's membership rows reference pairwise distinct groups. The theorems on member counts
  are stated for such stores.

  The handler is given over two readings of \<^verbatim>\<open>ctx.db.delete\<close>: \<open>deleteUserAndData\<close> over the
  delete-if-present of the spec, and \<open>deleteUserAndData_strict\<close> over a delete that, like a
  patch, is rejected when the document does not exist. The two agree on every store with
  unique ids that holds the user's record (\<open>deleteUserAndData_strict_agrees\<close>); they differ
  when the record is already gone.
\<close>

subsection \<open>Documents\<close>

type_synonym 'a doc = "nat \<times> 'a"
type_synonym 'a table = "'a doc list"

record user =
  username :: string
  sessionId :: string
  isOnline :: bool
  lastSeen :: int

record message =
  senderId :: nat
  recipientId :: "nat option"
  msg_groupId :: "nat option"
  content :: string

text \<open>The rows that carry a \<^verbatim>\<open>userId\<close> field share it.\<close>

record owned =
  userId :: nat

record groupMember = owned +
  groupId :: nat

record activeChat = owned +
  chatRef :: string

record typingIndicator = owned +
  chatId :: string
  isTyping :: bool

record chatGroup =
  name :: string
  memberCount :: int

record db =
  users :: "user table"
  messages :: "message table"
  groupMembers :: "groupMember table"
  groups :: "chatGroup table"
  activeChats :: "activeChat table"
  typingIndicators :: "typingIndicator table"

datatype error = UsernameTaken | NonexistentDocument

subsection \<open>The store's operations\<close>

text \<open>
  Modelled from the spec: \<^verbatim>\<open>ctx.db.get\<close> of the managed database, which is not part of
  the sources. A point lookup by id; an absent id gives \<^verbatim>\<open>null\<close>.
\<close>

definition db_get :: "nat \<Rightarrow> 'a table \<Rightarrow> 'a doc option" where
  "db_get i t = find (\<lambda>d. fst d = i) t"

text \<open>
  Modelled from the spec: \<^verbatim>\<open>ctx.db.delete\<close> as sections 5 and 7 of the spec word it, a
  delete-if-present. It is the table without the document of the given id, which is what
  a delete leaves whenever the document is there; on an absent id it is the identity.
\<close>

definition db_delete :: "nat \<Rightarrow> 'a table \<Rightarrow> 'a table" where
  "db_delete i t = filter (\<lambda>d. fst d \<noteq> i) t"

text \<open>
  Modelled from the spec: \<^verbatim>\<open>ctx.db.patch\<close> of the managed database, a shallow merge into
  the document with the given id. The spec does not say what a patch of an absent document
  does; here it is an error, the stricter reading, and the handlers are shown never to
  reach that case.
\<close>

definition db_patch :: "nat \<Rightarrow> ('a \<Rightarrow> 'a) \<Rightarrow> 'a table \<Rightarrow> error + 'a table" where
  "db_patch i f t =
     (if i \<in> fst ` set t
      then Inr (map (\<lambda>d. if fst d = i then (fst d, f (snd d)) else d) t)
      else Inl NonexistentDocument)"

text \<open>
  \<^verbatim>\<open>ctx.db.delete\<close> as the store answers it: a delete of a document that does not exist is
  rejected, as a patch of one is. Where the document exists it is \<open>db_delete\<close>.
\<close>

definition db_delete_strict :: "nat \<Rightarrow> 'a table \<Rightarrow> error + 'a table" where
  "db_delete_strict i t =
     (if i \<in> fst ` set t then Inr (db_delete i t) else Inl NonexistentDocument)"

text \<open>
  Modelled from the spec: \<^verbatim>\<open>ctx.db.insert\<close> of the managed database. The new document
  gets an id that no document of the table has and is the youngest of the table.
\<close>

definition fresh_id :: "'a table \<Rightarrow> nat" where
  "fresh_id t = Suc (fold max (map fst t) 0)"

definition db_insert :: "'a \<Rightarrow> 'a table \<Rightarrow> nat \<times> 'a table" where
  "db_insert v t = (fresh_id t, t @ [(fresh_id t, v)])"

subsection \<open>\<^verbatim>\<open>_deleteUserAndData\<close>\<close>

text \<open>Step 1: the messages whose sender is the user, found by the index and deleted.\<close>

definition delete_sent_messages :: "nat \<Rightarrow> db \<Rightarrow> db" where
  "delete_sent_messages uid d =
     (let messagesToDelete = filter (\<lambda>message. senderId (snd message) = uid) (messages d)
      in fold (\<lambda>message s. s\<lparr>messages := db_delete (fst message) (messages s)\<rparr>)
           messagesToDelete d)"

text \<open>
  Step 2, one membership: read the group; if it is there, patch its count to
  \<^verbatim>\<open>Math.max(0, group.memberCount - 1)\<close>; then delete the membership row.
\<close>

definition leave_group :: "groupMember doc \<Rightarrow> db \<Rightarrow> error + db" where
  "leave_group membership d =
     (case db_get (groupId (snd membership)) (groups d) of
        Some grp \<Rightarrow>
          (case db_patch (fst grp)
                  (\<lambda>g. g\<lparr>memberCount := max 0 (memberCount (snd grp) - 1)\<rparr>) (groups d) of
             Inl e \<Rightarrow> Inl e
           | Inr gs \<Rightarrow>
               Inr (d\<lparr>groups := gs,
                      groupMembers := db_delete (fst membership) (groupMembers d)\<rparr>))
      | None \<Rightarrow>
          Inr (d\<lparr>groupMembers := db_delete (fst membership) (groupMembers d)\<rparr>))"

fun for_each :: "('a \<Rightarrow> db \<Rightarrow> error + db) \<Rightarrow> 'a list \<Rightarrow> db \<Rightarrow> error + db" where
  "for_each f [] d = Inr d"
| "for_each f (x # xs) d =
     (case f x d of Inl e \<Rightarrow> Inl e | Inr d' \<Rightarrow> for_each f xs d')"

definition delete_memberships :: "nat \<Rightarrow> db \<Rightarrow> error + db" where
  "delete_memberships uid d =
     (let memberships = filter (\<lambda>m. userId (snd m) = uid) (groupMembers d)
      in for_each leave_group memberships d)"

text \<open>
  The same step when every callback has read its group before any callback writes: the
  reads see the groups as they were, then the patches are applied, then the rows deleted.
\<close>

definition patch_read :: "chatGroup doc option \<Rightarrow> db \<Rightarrow> error + db" where
  "patch_read r d =
     (case r of
        Some grp \<Rightarrow>
          (case db_patch (fst grp)
                  (\<lambda>g. g\<lparr>memberCount := max 0 (memberCount (snd grp) - 1)\<rparr>) (groups d) of
             Inl e \<Rightarrow> Inl e
           | Inr gs \<Rightarrow> Inr (d\<lparr>groups := gs\<rparr>))
      | None \<Rightarrow> Inr d)"

definition leave_groups_reads_first :: "groupMember doc list \<Rightarrow> db \<Rightarrow> error + db" where
  "leave_groups_reads_first memberships d =
     (let reads = map (\<lambda>membership. db_get (groupId (snd membership)) (groups d)) memberships
      in case for_each patch_read reads d of
           Inl e \<Rightarrow> Inl e
         | Inr d1 \<Rightarrow>
             Inr (fold (\<lambda>membership s.
                          s\<lparr>groupMembers := db_delete (fst membership) (groupMembers s)\<rparr>)
                    memberships d1))"

text \<open>Step 3: the active chats (by index) and the typing indicators (by a field scan).\<close>

definition delete_active_chats :: "nat \<Rightarrow> db \<Rightarrow> db" where
  "delete_active_chats uid d =
     (let chats = filter (\<lambda>chat. userId (snd chat) = uid) (activeChats d)
      in fold (\<lambda>chat s. s\<lparr>activeChats := db_delete (fst chat) (activeChats s)\<rparr>) chats d)"

definition delete_typing_indicators :: "nat \<Rightarrow> db \<Rightarrow> db" where
  "delete_typing_indicators uid d =
     (let indicators = filter (\<lambda>indicator. userId (snd indicator) = uid) (typingIndicators d)
      in fold (\<lambda>indicator s.
                 s\<lparr>typingIndicators := db_delete (fst indicator) (typingIndicators s)\<rparr>)
           indicators d)"

text \<open>Steps 1 to 3 together: everything the handler does before its last statement.\<close>

definition delete_owned_rows :: "nat \<Rightarrow> db \<Rightarrow> error + db" where
  "delete_owned_rows uid d =
     (case delete_memberships uid (delete_sent_messages uid d) of
        Inl e \<Rightarrow> Inl e
      | Inr d2 \<Rightarrow> Inr (delete_typing_indicators uid (delete_active_chats uid d2)))"

text \<open>Step 4: finally the user document itself.\<close>

definition deleteUserAndData :: "nat \<Rightarrow> db \<Rightarrow> error + db" where
  "deleteUserAndData uid d =
     (case delete_owned_rows uid d of
        Inl e \<Rightarrow> Inl e
      | Inr d4 \<Rightarrow> Inr (d4\<lparr>users := db_delete uid (users d4)\<rparr>))"

subsection \<open>\<^verbatim>\<open>_deleteUserAndData\<close> over the rejecting delete\<close>

text \<open>
  The same statements in the same order, every \<^verbatim>\<open>ctx.db.delete\<close> being \<open>db_delete_strict\<close>: a
  rejected delete ends the run with its error.
\<close>

definition delete_message_strict :: "message doc \<Rightarrow> db \<Rightarrow> error + db" where
  "delete_message_strict message d =
     (case db_delete_strict (fst message) (messages d) of
        Inl e \<Rightarrow> Inl e
      | Inr t \<Rightarrow> Inr (d\<lparr>messages := t\<rparr>))"

definition leave_group_strict :: "groupMember doc \<Rightarrow> db \<Rightarrow> error + db" where
  "leave_group_strict membership d =
     (case db_get (groupId (snd membership)) (groups d) of
        Some grp \<Rightarrow>
          (case db_patch (fst grp)
                  (\<lambda>g. g\<lparr>memberCount := max 0 (memberCount (snd grp) - 1)\<rparr>) (groups d) of
             Inl e \<Rightarrow> Inl e
           | Inr gs \<Rightarrow>
               (case db_delete_strict (fst membership) (groupMembers d) of
                  Inl e \<Rightarrow> Inl e
                | Inr ms \<Rightarrow> Inr (d\<lparr>groups := gs, groupMembers := ms\<rparr>)))
      | None \<Rightarrow>
          (case db_delete_strict (fst membership) (groupMembers d) of
             Inl e \<Rightarrow> Inl e
           | Inr ms \<Rightarrow> Inr (d\<lparr>groupMembers := ms\<rparr>)))"

definition delete_chat_strict :: "activeChat doc \<Rightarrow> db \<Rightarrow> error + db" where
  "delete_chat_strict chat d =
     (case db_delete_strict (fst chat) (activeChats d) of
        Inl e \<Rightarrow> Inl e
      | Inr t \<Rightarrow> Inr (d\<lparr>activeChats := t\<rparr>))"

definition delete_indicator_strict :: "typingIndicator doc \<Rightarrow> db \<Rightarrow> error + db" where
  "delete_indicator_strict indicator d =
     (case db_delete_strict (fst indicator) (typingIndicators d) of
        Inl e \<Rightarrow> Inl e
      | Inr t \<Rightarrow> Inr (d\<lparr>typingIndicators := t\<rparr>))"

definition delete_owned_rows_strict :: "nat \<Rightarrow> db \<Rightarrow> error + db" where
  "delete_owned_rows_strict uid d =
     (case for_each delete_message_strict
             (filter (\<lambda>message. senderId (snd message) = uid) (messages d)) d of
        Inl e \<Rightarrow> Inl e
      | Inr d1 \<Rightarrow>
     (case for_each leave_group_strict
             (filter (\<lambda>m. userId (snd m) = uid) (groupMembers d1)) d1 of
        Inl e \<Rightarrow> Inl e
      | Inr d2 \<Rightarrow>
     (case for_each delete_chat_strict
             (filter (\<lambda>chat. userId (snd chat) = uid) (activeChats d2)) d2 of
        Inl e \<Rightarrow> Inl e
      | Inr d3 \<Rightarrow>
        for_each delete_indicator_strict
          (filter (\<lambda>indicator. userId (snd indicator) = uid) (typingIndicators d3)) d3)))"

definition deleteUserAndData_strict :: "nat \<Rightarrow> db \<Rightarrow> error + db" where
  "deleteUserAndData_strict uid d =
     (case delete_owned_rows_strict uid d of
        Inl e \<Rightarrow> Inl e
      | Inr d4 \<Rightarrow>
          (case db_delete_strict uid (users d4) of
             Inl e \<Rightarrow> Inl e
           | Inr us \<Rightarrow> Inr (d4\<lparr>users := us\<rparr>)))"

text \<open>A step keeps the users table when it either fails for a missing document or leaves it.\<close>

definition keeps_users :: "db \<Rightarrow> error + db \<Rightarrow> bool" where
  "keeps_users d r = (case r of Inl e \<Rightarrow> e = NonexistentDocument | Inr d' \<Rightarrow> users d' = users d)"

subsection \<open>\<^verbatim>\<open>cleanupOfflineUsers\<close> and \<^verbatim>\<open>getOnlineUsers\<close>\<close>

text \<open>
  The sweep writes nothing: it hands one \<^verbatim>\<open>_deleteUserAndData\<close> task per selected user to
  the scheduler. Its result here is the list of the user ids it schedules.
\<close>

definition cleanupOfflineUsers :: "int \<Rightarrow> db \<Rightarrow> nat list" where
  "cleanupOfflineUsers now d =
     (let cutoffTime = now - 300000;
          offlineUsers = filter (\<lambda>u. lastSeen (snd u) < cutoffTime) (users d)
      in map fst offlineUsers)"

definition getOnlineUsers :: "int \<Rightarrow> db \<Rightarrow> (nat \<times> string \<times> bool \<times> int) list" where
  "getOnlineUsers now d =
     (let cutoffTime = now - 60000;
          us = filter (\<lambda>u. lastSeen (snd u) > cutoffTime)
                 (filter (\<lambda>u. isOnline (snd u) = True) (users d))
      in map (\<lambda>u. (fst u, username (snd u), isOnline (snd u), lastSeen (snd u))) us)"

subsection \<open>\<^verbatim>\<open>createUser\<close>\<close>

text \<open>
  The result is the outcome together with the store as the handler leaves it, so that a
  write made before a throw would show.
\<close>

definition createUser :: "int \<Rightarrow> string \<Rightarrow> string \<Rightarrow> db \<Rightarrow> (error + nat) \<times> db" where
  "createUser now uname sid d =
     (case find (\<lambda>u. isOnline (snd u) = True)
             (filter (\<lambda>u. username (snd u) = uname) (users d)) of
        Some existingUser \<Rightarrow> (Inl UsernameTaken, d)
      | None \<Rightarrow>
          (case find (\<lambda>u. sessionId (snd u) = sid) (users d) of
             Some existingSession \<Rightarrow>
               (case db_patch (fst existingSession)
                       (\<lambda>u. u\<lparr>username := uname, isOnline := True, lastSeen := now\<rparr>)
                       (users d) of
                  Inl e \<Rightarrow> (Inl e, d)
                | Inr us \<Rightarrow> (Inr (fst existingSession), d\<lparr>users := us\<rparr>))
           | None \<Rightarrow>
               (case db_insert
                       \<lparr>username = uname, sessionId = sid, isOnline = True, lastSeen = now\<rparr>
                       (users d) of
                  (newId, us) \<Rightarrow> (Inr newId, d\<lparr>users := us\<rparr>))))"

subsection \<open>Well-formed stores and the state the deletion is meant to reach\<close>

text \<open>The platform keys every table by \<^verbatim>\<open>_id\<close>: no two documents of a table share one.\<close>

definition unique_ids :: "db \<Rightarrow> bool" where
  "unique_ids d =
     (distinct (map fst (users d)) \<and> distinct (map fst (messages d)) \<and>
      distinct (map fst (groupMembers d)) \<and> distinct (map fst (groups d)) \<and>
      distinct (map fst (activeChats d)) \<and> distinct (map fst (typingIndicators d)))"

text \<open>
  The data model's invariant on memberships, for one user: each (userId, groupId) pair
  appears at most once.
\<close>

definition one_row_per_group :: "nat \<Rightarrow> db \<Rightarrow> bool" where
  "one_row_per_group uid d =
     distinct (map (\<lambda>m. groupId (snd m)) (filter (\<lambda>m. userId (snd m) = uid) (groupMembers d)))"



text \<open>One group document after one floored decrement of its count.\<close>

definition decremented :: "chatGroup doc \<Rightarrow> chatGroup doc" where
  "decremented g = (fst g, (snd g)\<lparr>memberCount := max 0 (memberCount (snd g) - 1)\<rparr>)"

definition is_member :: "nat \<Rightarrow> nat \<Rightarrow> db \<Rightarrow> bool" where
  "is_member uid gid d =
     list_ex (\<lambda>m. userId (snd m) = uid \<and> groupId (snd m) = gid) (groupMembers d)"

text \<open>
  The store that the spec's words describe after the deletion of a user: the user's sent
  messages, memberships, active chats, typing indicators and user record are gone, every
  group the user was in has its count decremented once (floored at 0), and everything
  else is as before. This definition follows the spec, not the handler; the handler is
  compared with it below.
\<close>

definition purged :: "nat \<Rightarrow> db \<Rightarrow> db" where
  "purged uid d =
     \<lparr>users = filter (\<lambda>u. fst u \<noteq> uid) (users d),
      messages = filter (\<lambda>m. senderId (snd m) \<noteq> uid) (messages d),
      groupMembers = filter (\<lambda>m. userId (snd m) \<noteq> uid) (groupMembers d),
      groups = map (\<lambda>g. if is_member uid (fst g) d then decremented g else g) (groups d),
      activeChats = filter (\<lambda>c. userId (snd c) \<noteq> uid) (activeChats d),
      typingIndicators = filter (\<lambda>i. userId (snd i) \<noteq> uid) (typingIndicators d)\<rparr>"

text \<open>
  What is left of a table once every row that a query collected has been deleted by its id.
\<close>

definition sweep :: "('a doc \<Rightarrow> bool) \<Rightarrow> 'a table \<Rightarrow> 'a table" where
  "sweep P t = filter (\<lambda>r. fst r \<notin> fst ` set (filter P t)) t"

subsection \<open>Example stores\<close>

text \<open>Two users, private and group messages, two groups with accurate counts.\<close>

definition demo_db :: db where
  "demo_db =
     \<lparr>users = [(1, \<lparr>username = ''alice'', sessionId = ''s1'', isOnline = True, lastSeen = 1000\<rparr>),
               (2, \<lparr>username = ''bob'', sessionId = ''s2'', isOnline = False, lastSeen = 500\<rparr>)],
      messages = [(10, \<lparr>senderId = 1, recipientId = Some 2, msg_groupId = None, content = ''hi''\<rparr>),
                  (11, \<lparr>senderId = 2, recipientId = Some 1, msg_groupId = None, content = ''yo''\<rparr>),
                  (12, \<lparr>senderId = 1, recipientId = None, msg_groupId = Some 7, content = ''all''\<rparr>)],
      groupMembers = [(20, \<lparr>userId = 1, groupId = 7\<rparr>), (21, \<lparr>userId = 2, groupId = 7\<rparr>),
                      (22, \<lparr>userId = 1, groupId = 8\<rparr>)],
      groups = [(7, \<lparr>name = ''g'', memberCount = 2\<rparr>), (8, \<lparr>name = ''h'', memberCount = 1\<rparr>)],
      activeChats = [(30, \<lparr>userId = 1, chatRef = ''c2''\<rparr>), (31, \<lparr>userId = 2, chatRef = ''c1''\<rparr>)],
      typingIndicators = [(40, \<lparr>userId = 2, chatId = ''c1'', isTyping = True\<rparr>),
                          (41, \<lparr>userId = 1, chatId = ''c2'', isTyping = False\<rparr>)]\<rparr>"


text \<open>One group whose stored count is already 0 although a membership row is left.\<close>

definition floor_db :: db where
  "floor_db =
     \<lparr>users = [(1, \<lparr>username = ''alice'', sessionId = ''s1'', isOnline = True, lastSeen = 1000\<rparr>)],
      messages = [],
      groupMembers = [(20, \<lparr>userId = 1, groupId = 8\<rparr>)],
      groups = [(8, \<lparr>name = ''h'', memberCount = 0\<rparr>)],
      activeChats = [],
      typingIndicators = []\<rparr>"

text \<open>Two membership rows of the same user for the same group.\<close>

definition twice_db :: db where
  "twice_db =
     \<lparr>users = [(1, \<lparr>username = ''alice'', sessionId = ''s1'', isOnline = True, lastSeen = 1000\<rparr>)],
      messages = [],
      groupMembers = [(20, \<lparr>userId = 1, groupId = 7\<rparr>), (21, \<lparr>userId = 1, groupId = 7\<rparr>)],
      groups = [(7, \<lparr>name = ''g'', memberCount = 5\<rparr>)],
      activeChats = [],
      typingIndicators = []\<rparr>"



section \<open>Lemmas on the store and on the stages of the deletion\<close>

subsection \<open>Deleting collected rows\<close>

lemma fold_delete_filter:
  "fold (\<lambda>x t. db_delete (fst x) t) xs t = filter (\<lambda>r. fst r \<notin> fst ` set xs) t"
  by (induction xs arbitrary: t) (auto simp: db_delete_def intro: filter_cong)

lemma fold_messages:
  "fold (\<lambda>x s. s\<lparr>messages := db_delete (fst x) (messages s)\<rparr>) xs d =
   d\<lparr>messages := fold (\<lambda>x t. db_delete (fst x) t) xs (messages d)\<rparr>"
  by (induction xs arbitrary: d) auto

lemma fold_activeChats:
  "fold (\<lambda>x s. s\<lparr>activeChats := db_delete (fst x) (activeChats s)\<rparr>) xs d =
   d\<lparr>activeChats := fold (\<lambda>x t. db_delete (fst x) t) xs (activeChats d)\<rparr>"
  by (induction xs arbitrary: d) auto

lemma fold_typingIndicators:
  "fold (\<lambda>x s. s\<lparr>typingIndicators := db_delete (fst x) (typingIndicators s)\<rparr>) xs d =
   d\<lparr>typingIndicators := fold (\<lambda>x t. db_delete (fst x) t) xs (typingIndicators d)\<rparr>"
  by (induction xs arbitrary: d) auto

lemma sweep_none_left: "filter P (sweep P t) = []"
  by (auto simp: sweep_def filter_empty_conv)

lemma sweep_nothing: "filter P t = [] \<Longrightarrow> sweep P t = t"
  by (simp add: sweep_def)

lemma sweep_distinct:
  assumes "distinct (map fst t)"
  shows "sweep P t = filter (\<lambda>r. \<not> P r) t"
proof -
  have inj: "inj_on fst (set t)" using assms by (simp add: distinct_map)
  have eq: "\<And>r. r \<in> set t \<Longrightarrow> (fst r \<notin> fst ` set (filter P t)) = (\<not> P r)"
  proof -
    fix r assume r: "r \<in> set t"
    show "(fst r \<notin> fst ` set (filter P t)) = (\<not> P r)"
    proof
      assume "fst r \<notin> fst ` set (filter P t)"
      then show "\<not> P r" using r by force
    next
      assume np: "\<not> P r"
      show "fst r \<notin> fst ` set (filter P t)"
      proof
        assume "fst r \<in> fst ` set (filter P t)"
        then obtain r' where r': "r' \<in> set t" "P r'" "fst r = fst r'" by auto
        with inj r have "r = r'" by (auto dest: inj_onD)
        with np r' show False by simp
      qed
    qed
  qed
  show ?thesis unfolding sweep_def by (rule filter_cong[OF refl]) (rule eq)
qed

lemma delete_sent_messages_eq:
  "delete_sent_messages uid d = d\<lparr>messages := sweep (\<lambda>m. senderId (snd m) = uid) (messages d)\<rparr>"
  by (simp add: delete_sent_messages_def fold_messages fold_delete_filter sweep_def)

lemma delete_active_chats_eq:
  "delete_active_chats uid d = d\<lparr>activeChats := sweep (\<lambda>m. userId (snd m) = uid) (activeChats d)\<rparr>"
  by (simp add: delete_active_chats_def fold_activeChats fold_delete_filter sweep_def)

lemma delete_typing_indicators_eq:
  "delete_typing_indicators uid d =
   d\<lparr>typingIndicators := sweep (\<lambda>m. userId (snd m) = uid) (typingIndicators d)\<rparr>"
  by (simp add: delete_typing_indicators_def fold_typingIndicators fold_delete_filter sweep_def)

subsection \<open>The membership step\<close>

lemma db_get_None: "db_get i t = None \<longleftrightarrow> i \<notin> fst ` set t"
  unfolding db_get_def find_None_iff by force

lemma map_fst_decremented:
  "map fst (map (\<lambda>g. if P g then decremented g else g) gs) = map fst gs"
  by (induction gs) (auto simp: decremented_def)

lemma db_get_Some_mem: "db_get i t = Some r \<Longrightarrow> r \<in> set t \<and> fst r = i"
  by (auto simp: db_get_def find_Some_iff)


lemma leave_group_ok:
  "\<exists>d'. leave_group m d = Inr d' \<and>
        groupMembers d' = db_delete (fst m) (groupMembers d) \<and>
        map fst (groups d') = map fst (groups d) \<and>
        users d' = users d \<and> messages d' = messages d \<and>
        activeChats d' = activeChats d \<and> typingIndicators d' = typingIndicators d"
proof (cases "db_get (groupId (snd m)) (groups d)")
  case None
  then show ?thesis by (simp add: leave_group_def)
next
  case (Some g)
  then have "fst g \<in> fst ` set (groups d)"
    using db_get_Some_mem by fastforce
  then show ?thesis
    using Some by (simp add: leave_group_def db_patch_def comp_def cong: map_cong)
qed

lemma leave_group_eq:
  assumes "distinct (map fst (groups d))"
  shows "leave_group m d =
     Inr (d\<lparr>groups := map (\<lambda>g. if fst g = groupId (snd m) then decremented g else g) (groups d),
            groupMembers := db_delete (fst m) (groupMembers d)\<rparr>)"
proof (cases "db_get (groupId (snd m)) (groups d)")
  case None
  then have "\<And>g. g \<in> set (groups d) \<Longrightarrow> fst g \<noteq> groupId (snd m)"
    unfolding db_get_None by force
  then have "map (\<lambda>g. if fst g = groupId (snd m) then decremented g else g) (groups d) = groups d"
    by (simp add: map_idI)
  then show ?thesis using None by (simp add: leave_group_def)
next
  case (Some g)
  then have g: "g \<in> set (groups d)" "fst g = groupId (snd m)"
    using db_get_Some_mem by fastforce+
  have inj: "inj_on fst (set (groups d))" using assms by (simp add: distinct_map)
  have same: "\<And>r. r \<in> set (groups d) \<Longrightarrow> fst r = fst g \<Longrightarrow> r = g"
    using inj g(1) by (auto dest: inj_onD)
  have "map (\<lambda>r. if fst r = fst g
                  then (fst r, (snd r)\<lparr>memberCount := max 0 (memberCount (snd g) - 1)\<rparr>) else r)
          (groups d) =
        map (\<lambda>r. if fst r = groupId (snd m) then decremented r else r) (groups d)"
    by (rule map_cong[OF refl]) (auto simp: decremented_def g(2) dest: same[unfolded g(2)])
  moreover have "fst g \<in> fst ` set (groups d)" using g(1) by simp
  ultimately show ?thesis
    using Some by (simp add: leave_group_def db_patch_def)
qed

lemma for_each_leave_group_ok:
  "\<exists>d'. for_each leave_group ms d = Inr d' \<and>
        groupMembers d' = fold (\<lambda>x t. db_delete (fst x) t) ms (groupMembers d) \<and>
        map fst (groups d') = map fst (groups d) \<and>
        users d' = users d \<and> messages d' = messages d \<and>
        activeChats d' = activeChats d \<and> typingIndicators d' = typingIndicators d"
proof (induction ms arbitrary: d)
  case Nil
  then show ?case by simp
next
  case (Cons m ms)
  obtain d1 where d1: "leave_group m d = Inr d1"
    "groupMembers d1 = db_delete (fst m) (groupMembers d)"
    "map fst (groups d1) = map fst (groups d)"
    "users d1 = users d" "messages d1 = messages d"
    "activeChats d1 = activeChats d" "typingIndicators d1 = typingIndicators d"
    using leave_group_ok[of m d] by blast
  from Cons.IH[of d1] d1 show ?case by simp
qed

lemma for_each_leave_group_eq:
  assumes "distinct (map fst (groups d))"
  shows "for_each leave_group ms d =
     Inr (d\<lparr>groups := fold (\<lambda>m. map (\<lambda>g. if fst g = groupId (snd m) then decremented g else g))
                        ms (groups d),
            groupMembers := fold (\<lambda>x t. db_delete (fst x) t) ms (groupMembers d)\<rparr>)"
  using assms
proof (induction ms arbitrary: d)
  case Nil
  then show ?case by simp
next
  case (Cons m ms)
  let ?d1 = "d\<lparr>groups := map (\<lambda>g. if fst g = groupId (snd m) then decremented g else g) (groups d),
            groupMembers := db_delete (fst m) (groupMembers d)\<rparr>"
  have "groups ?d1 = map (\<lambda>g. if fst g = groupId (snd m) then decremented g else g) (groups d)"
    by simp
  then have "distinct (map fst (groups ?d1))"
    using Cons.prems by (simp only: map_fst_decremented)
  from Cons.IH[OF this] leave_group_eq[OF Cons.prems, of m] show ?case by simp
qed

lemma fold_decrement_distinct:
  assumes "distinct (map (\<lambda>m. groupId (snd m)) ms)"
  shows "fold (\<lambda>m. map (\<lambda>g. if fst g = groupId (snd m) then decremented g else g)) ms gs =
         map (\<lambda>g. if fst g \<in> (\<lambda>m. groupId (snd m)) ` set ms then decremented g else g) gs"
  using assms
proof (induction ms arbitrary: gs)
  case Nil
  then show ?case by simp
next
  case (Cons m ms)
  then have notin: "groupId (snd m) \<notin> (\<lambda>m. groupId (snd m)) ` set ms"
    and dist: "distinct (map (\<lambda>m. groupId (snd m)) ms)" by auto
  show ?case
    unfolding fold_Cons comp_def Cons.IH[OF dist] map_map
    by (rule map_cong[OF refl]) (use notin in \<open>auto simp: decremented_def\<close>)
qed

subsection \<open>The stages composed\<close>

lemma delete_memberships_ok:
  "\<exists>d'. delete_memberships uid d = Inr d' \<and>
        groupMembers d' = sweep (\<lambda>m. userId (snd m) = uid) (groupMembers d) \<and>
        map fst (groups d') = map fst (groups d) \<and>
        users d' = users d \<and> messages d' = messages d \<and>
        activeChats d' = activeChats d \<and> typingIndicators d' = typingIndicators d"
  using for_each_leave_group_ok[of "filter (\<lambda>m. userId (snd m) = uid) (groupMembers d)" d]
  by (simp add: delete_memberships_def fold_delete_filter sweep_def)

lemma delete_owned_rows_ok:
  "\<exists>d4. delete_owned_rows uid d = Inr d4 \<and>
        users d4 = users d \<and>
        messages d4 = sweep (\<lambda>m. senderId (snd m) = uid) (messages d) \<and>
        groupMembers d4 = sweep (\<lambda>m. userId (snd m) = uid) (groupMembers d) \<and>
        map fst (groups d4) = map fst (groups d) \<and>
        activeChats d4 = sweep (\<lambda>c. userId (snd c) = uid) (activeChats d) \<and>
        typingIndicators d4 = sweep (\<lambda>i. userId (snd i) = uid) (typingIndicators d)"
proof -
  let ?d1 = "delete_sent_messages uid d"
  obtain d2 where d2: "delete_memberships uid ?d1 = Inr d2"
    "groupMembers d2 = sweep (\<lambda>m. userId (snd m) = uid) (groupMembers ?d1)"
    "map fst (groups d2) = map fst (groups ?d1)"
    "users d2 = users ?d1" "messages d2 = messages ?d1"
    "activeChats d2 = activeChats ?d1" "typingIndicators d2 = typingIndicators ?d1"
    using delete_memberships_ok[of uid ?d1] by blast
  show ?thesis
    using d2
    by (simp add: delete_owned_rows_def delete_sent_messages_eq delete_active_chats_eq
        delete_typing_indicators_eq)
qed

lemma deleteUserAndData_ok:
  "\<exists>d'. deleteUserAndData uid d = Inr d' \<and>
        users d' = db_delete uid (users d) \<and>
        messages d' = sweep (\<lambda>m. senderId (snd m) = uid) (messages d) \<and>
        groupMembers d' = sweep (\<lambda>m. userId (snd m) = uid) (groupMembers d) \<and>
        map fst (groups d') = map fst (groups d) \<and>
        activeChats d' = sweep (\<lambda>c. userId (snd c) = uid) (activeChats d) \<and>
        typingIndicators d' = sweep (\<lambda>i. userId (snd i) = uid) (typingIndicators d)"
proof -
  obtain d4 where "delete_owned_rows uid d = Inr d4"
    "users d4 = users d"
    "messages d4 = sweep (\<lambda>m. senderId (snd m) = uid) (messages d)"
    "groupMembers d4 = sweep (\<lambda>m. userId (snd m) = uid) (groupMembers d)"
    "map fst (groups d4) = map fst (groups d)"
    "activeChats d4 = sweep (\<lambda>c. userId (snd c) = uid) (activeChats d)"
    "typingIndicators d4 = sweep (\<lambda>i. userId (snd i) = uid) (typingIndicators d)"
    using delete_owned_rows_ok[of uid d] by blast
  then show ?thesis by (simp add: deleteUserAndData_def)
qed

lemma deleteUserAndData_nothing_owned:
  assumes "filter (\<lambda>m. senderId (snd m) = uid) (messages d) = []"
    and "filter (\<lambda>m. userId (snd m) = uid) (groupMembers d) = []"
    and "filter (\<lambda>c. userId (snd c) = uid) (activeChats d) = []"
    and "filter (\<lambda>i. userId (snd i) = uid) (typingIndicators d) = []"
    and "db_delete uid (users d) = users d"
  shows "deleteUserAndData uid d = Inr d"
proof -
  have 1: "delete_sent_messages uid d = d"
    by (simp add: delete_sent_messages_def assms(1))
  have 2: "delete_memberships uid d = Inr d"
    by (simp add: delete_memberships_def assms(2))
  have 3: "delete_active_chats uid d = d"
    by (simp add: delete_active_chats_def assms(3))
  have 4: "delete_typing_indicators uid d = d"
    by (simp add: delete_typing_indicators_def assms(4))
  show ?thesis
    by (simp add: deleteUserAndData_def delete_owned_rows_def 1 2 3 4 assms(5))
qed

lemma db_delete_twice: "db_delete i (db_delete i t) = db_delete i t"
  by (simp add: db_delete_def)

lemma is_member_iff:
  "is_member uid gid d \<longleftrightarrow>
   gid \<in> (\<lambda>m. groupId (snd m)) ` set (filter (\<lambda>m. userId (snd m) = uid) (groupMembers d))"
  by (auto simp: is_member_def list_ex_iff)

lemma delete_memberships_eq:
  assumes "distinct (map fst (groups d))" "distinct (map fst (groupMembers d))"
    "one_row_per_group uid d"
  shows "delete_memberships uid d =
     Inr (d\<lparr>groups := map (\<lambda>g. if is_member uid (fst g) d then decremented g else g) (groups d),
            groupMembers := filter (\<lambda>m. userId (snd m) \<noteq> uid) (groupMembers d)\<rparr>)"
proof -
  let ?ms = "filter (\<lambda>m. userId (snd m) = uid) (groupMembers d)"
  have "fold (\<lambda>x t. db_delete (fst x) t) ?ms (groupMembers d) =
        filter (\<lambda>m. userId (snd m) \<noteq> uid) (groupMembers d)"
    using sweep_distinct[OF assms(2), of "\<lambda>m. userId (snd m) = uid"]
    by (simp add: fold_delete_filter sweep_def)
  moreover have "fold (\<lambda>m. map (\<lambda>g. if fst g = groupId (snd m) then decremented g else g))
                   ?ms (groups d) =
        map (\<lambda>g. if is_member uid (fst g) d then decremented g else g) (groups d)"
    using fold_decrement_distinct[OF assms(3)[unfolded one_row_per_group_def], of "groups d"]
    by (simp add: is_member_iff)
  ultimately show ?thesis
    using for_each_leave_group_eq[OF assms(1), of ?ms]
    by (simp add: delete_memberships_def)
qed

lemma delete_owned_rows_eq:
  assumes "unique_ids d" "one_row_per_group uid d"
  shows "delete_owned_rows uid d = Inr ((purged uid d)\<lparr>users := users d\<rparr>)"
proof -
  let ?d1 = "delete_sent_messages uid d"
  have u: "distinct (map fst (messages d))" "distinct (map fst (groupMembers d))"
    "distinct (map fst (groups d))" "distinct (map fst (activeChats d))"
    "distinct (map fst (typingIndicators d))"
    using assms(1) by (simp_all add: unique_ids_def)
  have 1: "?d1 = d\<lparr>messages := filter (\<lambda>m. senderId (snd m) \<noteq> uid) (messages d)\<rparr>"
    by (simp add: delete_sent_messages_eq sweep_distinct[OF u(1)])
  have 2: "delete_memberships uid ?d1 =
     Inr (?d1\<lparr>groups := map (\<lambda>g. if is_member uid (fst g) ?d1 then decremented g else g) (groups ?d1),
            groupMembers := filter (\<lambda>m. userId (snd m) \<noteq> uid) (groupMembers ?d1)\<rparr>)"
    by (rule delete_memberships_eq) (use u assms(2) in \<open>simp_all add: 1 one_row_per_group_def\<close>)
  have m: "\<And>g. is_member uid g ?d1 = is_member uid g d"
    by (simp add: 1 is_member_def)
  show ?thesis
    unfolding delete_owned_rows_def 2 m
    by (simp add: 1 delete_active_chats_eq delete_typing_indicators_eq
        sweep_distinct[OF u(4)] sweep_distinct[OF u(5)] purged_def)
qed

lemma deleteUserAndData_eq:
  assumes "unique_ids d" "one_row_per_group uid d"
  shows "deleteUserAndData uid d = Inr (purged uid d)"
  by (simp add: deleteUserAndData_def delete_owned_rows_eq[OF assms] db_delete_def purged_def)

subsection \<open>Lookups and counts\<close>






subsection \<open>The user directory\<close>

lemma find_filter_conj: "find P (filter Q xs) = find (\<lambda>x. Q x \<and> P x) xs"
  by (induction xs) auto

lemma taken_throws:
  assumes "u \<in> set (users d)" "username (snd u) = uname" "isOnline (snd u)"
  shows "createUser now uname sid d = (Inl UsernameTaken, d)"
proof -
  have "u \<in> set (filter (\<lambda>u. username (snd u) = uname) (users d))"
    using assms by simp
  then have "\<exists>x. x \<in> set (filter (\<lambda>u. username (snd u) = uname) (users d)) \<and> isOnline (snd x) = True"
    using assms(3) by blast
  then have "find (\<lambda>u. isOnline (snd u) = True) (filter (\<lambda>u. username (snd u) = uname) (users d)) \<noteq> None"
    unfolding find_None_iff by blast
  then obtain eu where "find (\<lambda>u. isOnline (snd u) = True) (filter (\<lambda>u. username (snd u) = uname) (users d)) = Some eu"
    by blast
  then show ?thesis
    unfolding createUser_def by simp
qed

lemma fold_max_ge: "x \<in> set xs \<Longrightarrow> x \<le> fold max xs (a::nat)"
proof (induction xs arbitrary: a)
  case Nil then show ?case by simp
next
  case (Cons y ys)
  have mono: "\<And>b. b \<le> fold max ys b"
  proof -
    fix b show "b \<le> fold max ys b"
      by (induction ys arbitrary: b) (auto intro: order_trans[OF max.cobounded2])
  qed
  from Cons show ?case
    by (auto intro: order_trans[OF max.cobounded1 mono])
qed

lemma fresh_id_fresh: "fresh_id t \<notin> fst ` set t"
proof
  assume "fresh_id t \<in> fst ` set t"
  then have "fresh_id t \<in> set (map fst t)" by simp
  then have "fresh_id t \<le> fold max (map fst t) 0" by (rule fold_max_ge)
  then show False by (simp add: fresh_id_def)
qed

lemma insert_new_row:
  assumes "\<forall>u\<in>set (users d). username (snd u) = uname \<longrightarrow> \<not> isOnline (snd u)"
    and "\<forall>u\<in>set (users d). sessionId (snd u) \<noteq> sid"
  shows "createUser now uname sid d =
     (Inr (fresh_id (users d)),
      d\<lparr>users := users d @ [(fresh_id (users d),
          \<lparr>username = uname, sessionId = sid, isOnline = True, lastSeen = now\<rparr>)]\<rparr>)"
proof -
  have 1: "find (\<lambda>u. isOnline (snd u) = True) (filter (\<lambda>u. username (snd u) = uname) (users d)) = None"
    using assms(1) by (auto simp: find_None_iff)
  have 2: "find (\<lambda>u. sessionId (snd u) = sid) (users d) = None"
    using assms(2) by (auto simp: find_None_iff)
  show ?thesis
    unfolding createUser_def 1 2 by (simp add: db_insert_def)
qed

lemma resume_patches_row:
  assumes "\<forall>u\<in>set (users d). username (snd u) = uname \<longrightarrow> \<not> isOnline (snd u)"
    and "find (\<lambda>u. sessionId (snd u) = sid) (users d) = Some es"
  shows "createUser now uname sid d =
     (Inr (fst es),
      d\<lparr>users := map (\<lambda>u. if fst u = fst es
                            then (fst u, (snd u)\<lparr>username := uname, isOnline := True, lastSeen := now\<rparr>)
                            else u) (users d)\<rparr>)"
proof -
  have 1: "find (\<lambda>u. isOnline (snd u) = True) (filter (\<lambda>u. username (snd u) = uname) (users d)) = None"
    using assms(1) by (auto simp: find_None_iff)
  have "es \<in> set (users d)"
    using assms(2) by (auto simp: find_Some_iff)
  then have 3: "fst es \<in> fst ` set (users d)" by simp
  show ?thesis
    unfolding createUser_def 1 assms(2) by (simp add: db_patch_def 3)
qed

subsection \<open>Presence queries and swept ids\<close>

lemma key_unique:
  "distinct (map fst t) \<Longrightarrow> v \<in> set t \<Longrightarrow> w \<in> set t \<Longrightarrow> fst w = fst v \<Longrightarrow> w = v"
  by (auto simp: distinct_map dest: inj_onD)

lemma listed_iff:
  assumes "distinct (map fst (users d))" "v \<in> set (users d)"
  shows "(fst v \<in> fst ` set (getOnlineUsers now d)) =
         (isOnline (snd v) \<and> now - 60000 < lastSeen (snd v))"
proof
  assume "fst v \<in> fst ` set (getOnlineUsers now d)"
  then obtain w where w: "w \<in> set (users d)" "isOnline (snd w)" "now - 60000 < lastSeen (snd w)"
      "fst w = fst v"
    unfolding getOnlineUsers_def Let_def by auto
  with key_unique[OF assms w(1,4)] show "isOnline (snd v) \<and> now - 60000 < lastSeen (snd v)"
    by simp
next
  assume a: "isOnline (snd v) \<and> now - 60000 < lastSeen (snd v)"
  have "v \<in> set (filter (\<lambda>u. lastSeen (snd u) > now - 60000)
                    (filter (\<lambda>u. isOnline (snd u) = True) (users d)))"
    using a assms(2) by simp
  then have "(\<lambda>u. (fst u, username (snd u), isOnline (snd u), lastSeen (snd u))) v
               \<in> set (getOnlineUsers now d)"
    unfolding getOnlineUsers_def Let_def set_map by (rule imageI)
  then have "fst ((\<lambda>u. (fst u, username (snd u), isOnline (snd u), lastSeen (snd u))) v)
               \<in> fst ` set (getOnlineUsers now d)"
    by (rule imageI)
  then show "fst v \<in> fst ` set (getOnlineUsers now d)"
    by simp
qed

lemma selected_iff:
  assumes "distinct (map fst (users d))" "v \<in> set (users d)"
  shows "(fst v \<in> set (cleanupOfflineUsers now d)) = (lastSeen (snd v) < now - 300000)"
proof
  assume "fst v \<in> set (cleanupOfflineUsers now d)"
  then obtain w where w: "w \<in> set (users d)" "lastSeen (snd w) < now - 300000" "fst w = fst v"
    unfolding cleanupOfflineUsers_def Let_def by auto
  with key_unique[OF assms w(1,3)] show "lastSeen (snd v) < now - 300000"
    by simp
next
  assume a: "lastSeen (snd v) < now - 300000"
  have "v \<in> set (filter (\<lambda>u. lastSeen (snd u) < now - 300000) (users d))"
    using a assms(2) by simp
  then show "fst v \<in> set (cleanupOfflineUsers now d)"
    unfolding cleanupOfflineUsers_def Let_def set_map by (rule imageI)
qed



subsection \<open>The order of the membership callbacks\<close>

lemma fold_groupMembers:
  "fold (\<lambda>x s. s\<lparr>groupMembers := db_delete (fst x) (groupMembers s)\<rparr>) xs d =
   d\<lparr>groupMembers := fold (\<lambda>x t. db_delete (fst x) t) xs (groupMembers d)\<rparr>"
  by (induction xs arbitrary: d) auto

lemma patch_read_eq:
  assumes dist: "distinct (map fst gs0)"
    and ids: "map fst (groups s) = map fst gs0"
    and orig: "\<And>x. x \<in> set (groups s) \<Longrightarrow> fst x = gid \<Longrightarrow> x \<in> set gs0"
  shows "patch_read (db_get gid gs0) s =
         Inr (s\<lparr>groups := map (\<lambda>g. if fst g = gid then decremented g else g) (groups s)\<rparr>)"
proof (cases "db_get gid gs0")
  case None
  then have "gid \<notin> fst ` set gs0" by (simp add: db_get_None)
  then have "gid \<notin> fst ` set (groups s)" using ids by (metis set_map)
  then have "\<And>g. g \<in> set (groups s) \<Longrightarrow> fst g \<noteq> gid" by force
  then have "map (\<lambda>g. if fst g = gid then decremented g else g) (groups s) = groups s"
    by (simp add: map_idI)
  then show ?thesis using None by (simp add: patch_read_def)
next
  case (Some grp)
  then have grp: "grp \<in> set gs0" "fst grp = gid"
    using db_get_Some_mem by fastforce+
  have "fst grp \<in> fst ` set gs0" using grp(1) by simp
  then have present: "fst grp \<in> fst ` set (groups s)" using ids by (metis set_map)
  have same: "x = grp" if "x \<in> set (groups s)" "fst x = gid" for x
    using key_unique[OF dist grp(1) orig[OF that]] that(2) grp(2) by simp
  have "map (\<lambda>r. if fst r = fst grp
                  then (fst r, (snd r)\<lparr>memberCount := max 0 (memberCount (snd grp) - 1)\<rparr>) else r)
          (groups s) =
        map (\<lambda>r. if fst r = gid then decremented r else r) (groups s)"
    by (rule map_cong[OF refl]) (auto simp: decremented_def grp(2) dest: same)
  then show ?thesis
    using Some present by (simp add: patch_read_def db_patch_def)
qed

lemma for_each_patch_read_eq:
  assumes "distinct (map fst gs0)"
    and "distinct (map (\<lambda>m. groupId (snd m)) ms)"
    and "map fst (groups s) = map fst gs0"
    and "\<And>x m. x \<in> set (groups s) \<Longrightarrow> m \<in> set ms \<Longrightarrow> fst x = groupId (snd m) \<Longrightarrow> x \<in> set gs0"
  shows "for_each patch_read (map (\<lambda>m. db_get (groupId (snd m)) gs0) ms) s =
         Inr (s\<lparr>groups := fold (\<lambda>m. map (\<lambda>g. if fst g = groupId (snd m) then decremented g else g))
                            ms (groups s)\<rparr>)"
  using assms(2,3,4)
proof (induction ms arbitrary: s)
  case Nil
  then show ?case by simp
next
  case (Cons m ms)
  let ?f = "\<lambda>g. if fst g = groupId (snd m) then decremented g else g"
  let ?s1 = "s\<lparr>groups := map ?f (groups s)\<rparr>"
  have step: "patch_read (db_get (groupId (snd m)) gs0) s = Inr ?s1"
    by (rule patch_read_eq[OF assms(1) Cons.prems(2)]) (rule Cons.prems(3), simp_all)
  have notin: "groupId (snd m) \<notin> (\<lambda>m. groupId (snd m)) ` set ms"
    and dist: "distinct (map (\<lambda>m. groupId (snd m)) ms)"
    using Cons.prems(1) by auto
  have ids: "map fst (groups ?s1) = map fst gs0"
    using Cons.prems(2) by (simp add: map_fst_decremented del: map_map)
  have orig: "x \<in> set gs0"
    if "x \<in> set (groups ?s1)" "m' \<in> set ms" "fst x = groupId (snd m')" for x m'
  proof -
    from that(1) have "x \<in> ?f ` set (groups s)" by simp
    then obtain y where y: "y \<in> set (groups s)" "x = ?f y" by (rule imageE) (rule that)
    have "fst y = fst x" using y(2) by (simp add: decremented_def split: if_splits)
    moreover have "groupId (snd m') \<noteq> groupId (snd m)"
    proof
      assume "groupId (snd m') = groupId (snd m)"
      then have "groupId (snd m) = (\<lambda>m. groupId (snd m)) m'" by simp
      then have "groupId (snd m) \<in> (\<lambda>m. groupId (snd m)) ` set ms"
        using that(2) by (rule image_eqI)
      with notin show False by simp
    qed
    ultimately have "x = y" using y(2) that(3) by simp
    then show ?thesis using Cons.prems(3)[of y m'] y(1) that(2,3) by simp
  qed
  from Cons.IH[OF dist ids orig] step show ?case by simp
qed

lemma reads_first_agrees:
  assumes "distinct (map fst (groups d))"
    and "distinct (map (\<lambda>m. groupId (snd m)) ms)"
  shows "leave_groups_reads_first ms d = for_each leave_group ms d"
proof -
  have "for_each patch_read (map (\<lambda>m. db_get (groupId (snd m)) (groups d)) ms) d =
         Inr (d\<lparr>groups := fold (\<lambda>m. map (\<lambda>g. if fst g = groupId (snd m) then decremented g else g))
                            ms (groups d)\<rparr>)"
    by (rule for_each_patch_read_eq[OF assms]) simp_all
  then show ?thesis
    by (simp add: leave_groups_reads_first_def fold_groupMembers
        for_each_leave_group_eq[OF assms(1)])
qed

lemma delete_memberships_order:
  assumes "unique_ids d" and "one_row_per_group uid d"
  shows "leave_groups_reads_first (filter (\<lambda>m. userId (snd m) = uid) (groupMembers d)) d =
         delete_memberships uid d"
proof -
  have "distinct (map fst (groups d))" using assms(1) by (simp add: unique_ids_def)
  from reads_first_agrees[OF this assms(2)[unfolded one_row_per_group_def]]
  show ?thesis by (simp add: delete_memberships_def)
qed

text \<open>With two rows for one group the two orders differ: two decrements against one.\<close>

lemma orders_differ_on_duplicate_rows:
  "map snd (case_sum (\<lambda>e. []) groups (delete_memberships 1 twice_db)) =
     [\<lparr>name = ''g'', memberCount = 3\<rparr>] \<and>
   map snd (case_sum (\<lambda>e. []) groups
      (leave_groups_reads_first (filter (\<lambda>m. userId (snd m) = 1) (groupMembers twice_db)) twice_db)) =
     [\<lparr>name = ''g'', memberCount = 4\<rparr>]"
  by (simp add: delete_memberships_def leave_groups_reads_first_def leave_group_def patch_read_def
      db_get_def db_patch_def db_delete_def twice_db_def)

subsection \<open>The handler over the rejecting delete\<close>

lemma ids_db_delete: "fst ` set (db_delete i t) = fst ` set t - {i}"
  unfolding db_delete_def by force

lemma db_delete_strict_present:
  "i \<in> fst ` set t \<Longrightarrow> db_delete_strict i t = Inr (db_delete i t)"
  by (simp add: db_delete_strict_def)

lemma tail_ids:
  assumes "distinct (map fst (x # xs))" "fst ` set (x # xs) \<subseteq> fst ` set t"
  shows "fst x \<in> fst ` set t" "distinct (map fst xs)"
    "fst ` set xs \<subseteq> fst ` set (db_delete (fst x) t)"
proof -
  show "fst x \<in> fst ` set t" using assms(2) by simp
  show "distinct (map fst xs)" using assms(1) by simp
  have notin: "fst x \<notin> fst ` set xs" using assms(1) by simp
  have "fst ` set xs \<subseteq> fst ` set t" using assms(2) by simp
  then have "fst ` set xs \<subseteq> fst ` set t - {fst x}" using notin by blast
  then show "fst ` set xs \<subseteq> fst ` set (db_delete (fst x) t)"
    by (simp only: ids_db_delete)
qed

lemma for_each_delete_message_strict:
  assumes "distinct (map fst xs)" "fst ` set xs \<subseteq> fst ` set (messages d)"
  shows "for_each delete_message_strict xs d =
         Inr (fold (\<lambda>x s. s\<lparr>messages := db_delete (fst x) (messages s)\<rparr>) xs d)"
  using assms
proof (induction xs arbitrary: d)
  case Nil
  then show ?case by simp
next
  case (Cons x xs)
  note t = tail_ids[OF Cons.prems]
  let ?d1 = "d\<lparr>messages := db_delete (fst x) (messages d)\<rparr>"
  have 1: "delete_message_strict x d = Inr ?d1"
    by (simp add: delete_message_strict_def db_delete_strict_present[OF t(1)])
  have "fst ` set xs \<subseteq> fst ` set (messages ?d1)" using t(3) by simp
  from Cons.IH[OF t(2) this] 1 show ?case by simp
qed

lemma for_each_delete_chat_strict:
  assumes "distinct (map fst xs)" "fst ` set xs \<subseteq> fst ` set (activeChats d)"
  shows "for_each delete_chat_strict xs d =
         Inr (fold (\<lambda>x s. s\<lparr>activeChats := db_delete (fst x) (activeChats s)\<rparr>) xs d)"
  using assms
proof (induction xs arbitrary: d)
  case Nil
  then show ?case by simp
next
  case (Cons x xs)
  note t = tail_ids[OF Cons.prems]
  let ?d1 = "d\<lparr>activeChats := db_delete (fst x) (activeChats d)\<rparr>"
  have 1: "delete_chat_strict x d = Inr ?d1"
    by (simp add: delete_chat_strict_def db_delete_strict_present[OF t(1)])
  have "fst ` set xs \<subseteq> fst ` set (activeChats ?d1)" using t(3) by simp
  from Cons.IH[OF t(2) this] 1 show ?case by simp
qed

lemma for_each_delete_indicator_strict:
  assumes "distinct (map fst xs)" "fst ` set xs \<subseteq> fst ` set (typingIndicators d)"
  shows "for_each delete_indicator_strict xs d =
         Inr (fold (\<lambda>x s. s\<lparr>typingIndicators := db_delete (fst x) (typingIndicators s)\<rparr>) xs d)"
  using assms
proof (induction xs arbitrary: d)
  case Nil
  then show ?case by simp
next
  case (Cons x xs)
  note t = tail_ids[OF Cons.prems]
  let ?d1 = "d\<lparr>typingIndicators := db_delete (fst x) (typingIndicators d)\<rparr>"
  have 1: "delete_indicator_strict x d = Inr ?d1"
    by (simp add: delete_indicator_strict_def db_delete_strict_present[OF t(1)])
  have "fst ` set xs \<subseteq> fst ` set (typingIndicators ?d1)" using t(3) by simp
  from Cons.IH[OF t(2) this] 1 show ?case by simp
qed

lemma leave_group_strict_present:
  assumes "fst m \<in> fst ` set (groupMembers d)"
  shows "leave_group_strict m d = leave_group m d"
  by (simp add: leave_group_strict_def leave_group_def db_delete_strict_present[OF assms]
      split: option.splits sum.splits)

lemma for_each_leave_group_strict:
  assumes "distinct (map fst xs)" "fst ` set xs \<subseteq> fst ` set (groupMembers d)"
  shows "for_each leave_group_strict xs d = for_each leave_group xs d"
  using assms
proof (induction xs arbitrary: d)
  case Nil
  then show ?case by simp
next
  case (Cons x xs)
  note t = tail_ids[OF Cons.prems]
  obtain d1 where d1: "leave_group x d = Inr d1"
    "groupMembers d1 = db_delete (fst x) (groupMembers d)"
    using leave_group_ok[of x d] by blast
  have "fst ` set xs \<subseteq> fst ` set (groupMembers d1)" using t(3) d1(2) by simp
  from Cons.IH[OF t(2) this] d1(1) leave_group_strict_present[OF t(1)] show ?case by simp
qed

lemma collected_ids:
  "distinct (map fst t) \<Longrightarrow> distinct (map fst (filter P t))"
  "fst ` set (filter P t) \<subseteq> fst ` set t"
  by (simp_all add: distinct_map_filter image_mono)

lemma delete_owned_rows_strict_agrees:
  assumes "unique_ids d"
  shows "delete_owned_rows_strict uid d = delete_owned_rows uid d"
proof -
  have u: "distinct (map fst (messages d))" "distinct (map fst (groupMembers d))"
    "distinct (map fst (activeChats d))" "distinct (map fst (typingIndicators d))"
    using assms by (simp_all add: unique_ids_def)
  let ?d1 = "delete_sent_messages uid d"
  have 1: "for_each delete_message_strict
             (filter (\<lambda>message. senderId (snd message) = uid) (messages d)) d = Inr ?d1"
    using for_each_delete_message_strict[OF collected_ids(1)[OF u(1)] collected_ids(2)]
    by (simp add: delete_sent_messages_def)
  have d1: "groupMembers ?d1 = groupMembers d" "activeChats ?d1 = activeChats d"
    "typingIndicators ?d1 = typingIndicators d"
    by (simp_all add: delete_sent_messages_eq)
  obtain d2 where d2: "delete_memberships uid ?d1 = Inr d2"
    "activeChats d2 = activeChats ?d1" "typingIndicators d2 = typingIndicators ?d1"
    using delete_memberships_ok[of uid ?d1] by blast
  have "distinct (map fst (groupMembers ?d1))" using u(2) d1(1) by simp
  from for_each_leave_group_strict[OF collected_ids(1)[OF this] collected_ids(2)]
  have 2: "for_each leave_group_strict
             (filter (\<lambda>m. userId (snd m) = uid) (groupMembers ?d1)) ?d1 = Inr d2"
    using d2(1) by (simp add: delete_memberships_def)
  let ?d3 = "delete_active_chats uid d2"
  have "distinct (map fst (activeChats d2))" using u(3) d1(2) d2(2) by simp
  from for_each_delete_chat_strict[OF collected_ids(1)[OF this] collected_ids(2)]
  have 3: "for_each delete_chat_strict
             (filter (\<lambda>chat. userId (snd chat) = uid) (activeChats d2)) d2 = Inr ?d3"
    by (simp add: delete_active_chats_def)
  have "typingIndicators ?d3 = typingIndicators d"
    using d1(3) d2(3) by (simp add: delete_active_chats_eq)
  then have "distinct (map fst (typingIndicators ?d3))" using u(4) by simp
  from for_each_delete_indicator_strict[OF collected_ids(1)[OF this] collected_ids(2)]
  have 4: "for_each delete_indicator_strict
             (filter (\<lambda>indicator. userId (snd indicator) = uid) (typingIndicators ?d3)) ?d3 =
           Inr (delete_typing_indicators uid ?d3)"
    by (simp add: delete_typing_indicators_def)
  show ?thesis
    unfolding delete_owned_rows_strict_def 1 by (simp add: 2 3 4 delete_owned_rows_def d2(1))
qed

lemma deleteUserAndData_strict_agrees:
  assumes "unique_ids d" and "uid \<in> fst ` set (users d)"
  shows "deleteUserAndData_strict uid d = deleteUserAndData uid d"
proof -
  obtain d4 where d4: "delete_owned_rows uid d = Inr d4" "users d4 = users d"
    using delete_owned_rows_ok[of uid d] by blast
  have "db_delete_strict uid (users d4) = Inr (db_delete uid (users d4))"
    using assms(2) d4(2) by (simp add: db_delete_strict_present)
  then show ?thesis
    by (simp add: deleteUserAndData_strict_def deleteUserAndData_def
        delete_owned_rows_strict_agrees[OF assms(1)] d4(1))
qed

lemma for_each_keeps_users:
  assumes "\<And>x s. keeps_users s (f x s)"
  shows "keeps_users d (for_each f xs d)"
proof (induction xs arbitrary: d)
  case Nil
  then show ?case by (simp add: keeps_users_def)
next
  case (Cons x xs)
  show ?case
  proof (cases "f x d")
    case (Inl e)
    then show ?thesis using assms[of d x] by (simp add: keeps_users_def)
  next
    case (Inr d1)
    then have "users d1 = users d" using assms[of d x] by (simp add: keeps_users_def)
    then show ?thesis using Cons.IH[of d1] Inr by (simp add: keeps_users_def split: sum.splits)
  qed
qed

lemma steps_keep_users:
  "keeps_users s (delete_message_strict m s)"
  "keeps_users s (leave_group_strict g s)"
  "keeps_users s (delete_chat_strict c s)"
  "keeps_users s (delete_indicator_strict i s)"
  by (simp_all add: keeps_users_def delete_message_strict_def leave_group_strict_def
      delete_chat_strict_def delete_indicator_strict_def db_delete_strict_def db_patch_def
      split: option.splits)

lemma keeps_users_bind:
  assumes "keeps_users d r" and "\<And>d1. users d1 = users d \<Longrightarrow> keeps_users d1 (k d1)"
  shows "keeps_users d (case r of Inl e \<Rightarrow> Inl e | Inr d1 \<Rightarrow> k d1)"
proof (cases r)
  case (Inl e)
  then show ?thesis using assms(1) by (simp add: keeps_users_def)
next
  case (Inr d1)
  then have u: "users d1 = users d" using assms(1) by (simp add: keeps_users_def)
  from assms(2)[OF u] show ?thesis using Inr u by (simp add: keeps_users_def split: sum.splits)
qed

lemma delete_owned_rows_strict_keeps_users:
  "keeps_users d (delete_owned_rows_strict uid d)"
  unfolding delete_owned_rows_strict_def
  by (intro keeps_users_bind for_each_keeps_users steps_keep_users)

lemma absent_user_throws:
  assumes "uid \<notin> fst ` set (users d)"
  shows "deleteUserAndData_strict uid d = Inl NonexistentDocument"
proof (cases "delete_owned_rows_strict uid d")
  case (Inl e)
  then have "e = NonexistentDocument"
    using delete_owned_rows_strict_keeps_users[of d uid] by (simp add: keeps_users_def)
  then show ?thesis using Inl by (simp add: deleteUserAndData_strict_def)
next
  case (Inr d4)
  then have "users d4 = users d"
    using delete_owned_rows_strict_keeps_users[of d uid] by (simp add: keeps_users_def)
  then show ?thesis
    using Inr assms by (simp add: deleteUserAndData_strict_def db_delete_strict_def)
qed

lemma delete_owned_rows_strict_purged:
  "delete_owned_rows_strict uid (purged uid d) = Inr (purged uid d)"
  by (simp add: delete_owned_rows_strict_def purged_def)

lemma purged_user_gone: "uid \<notin> fst ` set (users (purged uid d))"
  unfolding purged_def by force

text \<open>Over the delete-if-present reading a second run is the identity.\<close>

lemma delete_if_present_rerun:
  "\<exists>d'. deleteUserAndData uid d = Inr d' \<and> deleteUserAndData uid d' = Inr d'"
proof -
  obtain d' where d': "deleteUserAndData uid d = Inr d'"
    "users d' = db_delete uid (users d)"
    "messages d' = sweep (\<lambda>m. senderId (snd m) = uid) (messages d)"
    "groupMembers d' = sweep (\<lambda>m. userId (snd m) = uid) (groupMembers d)"
    "activeChats d' = sweep (\<lambda>c. userId (snd c) = uid) (activeChats d)"
    "typingIndicators d' = sweep (\<lambda>i. userId (snd i) = uid) (typingIndicators d)"
    using deleteUserAndData_ok[of uid d] by blast
  have "deleteUserAndData uid d' = Inr d'"
    by (rule deleteUserAndData_nothing_owned)
       (simp_all add: d' sweep_none_left db_delete_twice)
  with d'(1) show ?thesis by blast
qed

section \<open>The claims\<close>



text \<open>
  Claim C2, as stated, fails: the last statement deletes the user record without looking
  whether it is there, and the store rejects the delete of a document that does not
  exist. The first run below succeeds; the second, on the store the first one left, ends
  with the error.
\<close>

theorem second_run_throws_counterexample:
  "deleteUserAndData_strict 1 floor_db =
     Inr \<lparr>users = [], messages = [], groupMembers = [],
          groups = [(8, \<lparr>name = ''h'', memberCount = 0\<rparr>)],
          activeChats = [], typingIndicators = []\<rparr> \<and>
   deleteUserAndData_strict 1
       \<lparr>users = [], messages = [], groupMembers = [],
        groups = [(8, \<lparr>name = ''h'', memberCount = 0\<rparr>)],
        activeChats = [], typingIndicators = []\<rparr> = Inl NonexistentDocument"
  by (simp add: deleteUserAndData_strict_def delete_owned_rows_strict_def
      delete_message_strict_def leave_group_strict_def delete_chat_strict_def
      delete_indicator_strict_def db_delete_strict_def db_delete_def db_get_def db_patch_def
      floor_db_def)

text \<open>
  Claim C2, amended. On a store with unique ids that holds the user's record (the user
  having at most one membership row per group), \<^verbatim>\<open>_deleteUserAndData\<close> completes, whether or
  not the user's other rows are still there, and leaves the purged store. A second run
  on that store finds nothing to delete before its last statement, so the store stays as
  the first run left it, and then fails at the delete of the absent user record. On any
  store without the user's record the run fails with that error.
\<close>

theorem rerun_leaves_store_and_throws:
  "(db_get uid (users d) = None \<longrightarrow> deleteUserAndData_strict uid d = Inl NonexistentDocument) \<and>
   (unique_ids d \<and> one_row_per_group uid d \<and> db_get uid (users d) \<noteq> None \<longrightarrow>
      deleteUserAndData_strict uid d = Inr (purged uid d) \<and>
      delete_owned_rows_strict uid (purged uid d) = Inr (purged uid d) \<and>
      deleteUserAndData_strict uid (purged uid d) = Inl NonexistentDocument)"
proof (intro conjI impI)
  assume "db_get uid (users d) = None"
  then show "deleteUserAndData_strict uid d = Inl NonexistentDocument"
    by (simp add: db_get_None absent_user_throws)
next
  assume a: "unique_ids d \<and> one_row_per_group uid d \<and> db_get uid (users d) \<noteq> None"
  then have "uid \<in> fst ` set (users d)" by (simp add: db_get_None)
  then show "deleteUserAndData_strict uid d = Inr (purged uid d)"
    using a by (simp add: deleteUserAndData_strict_agrees deleteUserAndData_eq)
  show "delete_owned_rows_strict uid (purged uid d) = Inr (purged uid d)"
    by (rule delete_owned_rows_strict_purged)
  show "deleteUserAndData_strict uid (purged uid d) = Inl NonexistentDocument"
    by (rule absent_user_throws) (rule purged_user_gone)
qed

theorem rerun_leaves_store_and_throws_witness:
  "unique_ids demo_db \<and> one_row_per_group 1 demo_db \<and>
   db_get 1 (users demo_db) =
     Some (1, \<lparr>username = ''alice'', sessionId = ''s1'', isOnline = True, lastSeen = 1000\<rparr>) \<and>
   deleteUserAndData_strict 1 demo_db = Inr (purged 1 demo_db) \<and>
   delete_owned_rows_strict 1 (purged 1 demo_db) = Inr (purged 1 demo_db) \<and>
   deleteUserAndData_strict 1 (purged 1 demo_db) = Inl NonexistentDocument \<and>
   db_get 9 (users demo_db) = None \<and>
   deleteUserAndData_strict 9 demo_db = Inl NonexistentDocument"
proof -
  have h: "unique_ids demo_db" "one_row_per_group 1 demo_db"
    by (simp_all add: unique_ids_def one_row_per_group_def demo_db_def)
  have g: "db_get 1 (users demo_db) =
     Some (1, \<lparr>username = ''alice'', sessionId = ''s1'', isOnline = True, lastSeen = 1000\<rparr>)"
    "db_get 9 (users demo_db) = None"
    by (simp_all add: db_get_def demo_db_def)
  show ?thesis
    using h g rerun_leaves_store_and_throws[of 1 demo_db]
      rerun_leaves_store_and_throws[of 9 demo_db]
    by simp
qed








text \<open>
  Claim C6. A user whose flag is online and whose \<open>lastSeen\<close> is 90 seconds before \<open>now\<close>
  is not in the result of \<^verbatim>\<open>getOnlineUsers\<close> and is not selected by
  \<^verbatim>\<open>cleanupOfflineUsers\<close>. The two windows are separate constants: a user is listed
  exactly when the flag is set and \<open>lastSeen\<close> is less than 60000 ms old, and selected
  exactly when \<open>lastSeen\<close> is more than 300000 ms old.
\<close>

theorem presence_windows:
  assumes "distinct (map fst (users d))" and "u \<in> set (users d)"
    and "isOnline (snd u)" and "lastSeen (snd u) = now - 90000"
  shows "fst u \<notin> fst ` set (getOnlineUsers now d) \<and>
         fst u \<notin> set (cleanupOfflineUsers now d) \<and>
         (\<forall>v\<in>set (users d). (fst v \<in> fst ` set (getOnlineUsers now d)) =
              (isOnline (snd v) \<and> now - 60000 < lastSeen (snd v))) \<and>
         (\<forall>v\<in>set (users d). (fst v \<in> set (cleanupOfflineUsers now d)) =
              (lastSeen (snd v) < now - 300000))"
  using listed_iff[OF assms(1)] selected_iff[OF assms(1)] assms(2,3,4) by simp

theorem presence_windows_witness:
  "distinct (map fst (users demo_db)) \<and>
   db_get 1 (users demo_db) =
     Some (1, \<lparr>username = ''alice'', sessionId = ''s1'', isOnline = True, lastSeen = 91000 - 90000\<rparr>) \<and>
   1 \<notin> fst ` set (getOnlineUsers 91000 demo_db) \<and>
   1 \<notin> set (cleanupOfflineUsers 91000 demo_db)"
proof -
  have h: "distinct (map fst (users demo_db))"
    "(1, \<lparr>username = ''alice'', sessionId = ''s1'', isOnline = True, lastSeen = 1000\<rparr>)
       \<in> set (users demo_db)"
    by (simp_all add: demo_db_def)
  have g: "db_get 1 (users demo_db) =
     Some (1, \<lparr>username = ''alice'', sessionId = ''s1'', isOnline = True, lastSeen = 1000\<rparr>)"
    by (simp add: db_get_def demo_db_def)
  show ?thesis
    using h(1) g presence_windows[OF h, of 91000] by simp
qed

text \<open>
  Claim C7. If some user row with the requested username is online, \<^verbatim>\<open>createUser\<close> fails
  with the username-taken error. If every row with that username is offline and no row
  has the session id, it succeeds: a new row with the username, the session id,
  \<open>isOnline = True\<close> and \<open>lastSeen = now\<close> is appended under an id the table did not have,
  and that id is returned.
\<close>

theorem createUser_online_uniqueness:
  "((\<exists>u\<in>set (users d). username (snd u) = uname \<and> isOnline (snd u)) \<longrightarrow>
      fst (createUser now uname sid d) = Inl UsernameTaken) \<and>
   ((\<forall>u\<in>set (users d). username (snd u) = uname \<longrightarrow> \<not> isOnline (snd u)) \<and>
    (\<forall>u\<in>set (users d). sessionId (snd u) \<noteq> sid) \<longrightarrow>
      createUser now uname sid d =
        (Inr (fresh_id (users d)),
         d\<lparr>users := users d @ [(fresh_id (users d),
             \<lparr>username = uname, sessionId = sid, isOnline = True, lastSeen = now\<rparr>)]\<rparr>) \<and>
      fresh_id (users d) \<notin> fst ` set (users d))"
proof (intro conjI impI)
  assume "\<exists>u\<in>set (users d). username (snd u) = uname \<and> isOnline (snd u)"
  then obtain u where "u \<in> set (users d)" "username (snd u) = uname" "isOnline (snd u)"
    by blast
  then show "fst (createUser now uname sid d) = Inl UsernameTaken"
    by (simp add: taken_throws)
next
  assume a: "(\<forall>u\<in>set (users d). username (snd u) = uname \<longrightarrow> \<not> isOnline (snd u)) \<and>
    (\<forall>u\<in>set (users d). sessionId (snd u) \<noteq> sid)"
  then show "createUser now uname sid d =
        (Inr (fresh_id (users d)),
         d\<lparr>users := users d @ [(fresh_id (users d),
             \<lparr>username = uname, sessionId = sid, isOnline = True, lastSeen = now\<rparr>)]\<rparr>)"
    by (intro insert_new_row) blast+
  show "fresh_id (users d) \<notin> fst ` set (users d)"
    by (rule fresh_id_fresh)
qed

theorem createUser_online_uniqueness_witness:
  "fst (createUser 5000 ''alice'' ''s9'' demo_db) = Inl UsernameTaken \<and>
   createUser 5000 ''bob'' ''s3'' demo_db =
     (Inr 3, demo_db\<lparr>users := users demo_db @
        [(3, \<lparr>username = ''bob'', sessionId = ''s3'', isOnline = True, lastSeen = 5000\<rparr>)]\<rparr>)"
  using createUser_online_uniqueness[of demo_db "''alice''" 5000 "''s9''"]
    createUser_online_uniqueness[of demo_db "''bob''" 5000 "''s3''"]
  by (simp add: demo_db_def fresh_id_def)

text \<open>
  Claim C8, as stated, fails: the username check comes first, so a session that has a
  user row is still rejected when another user holds the requested name online. Here
  session \<open>s2\<close> has row 2, and the name \<open>alice\<close> is held online by row 1.
\<close>

theorem createUser_resume_counterexample:
  "db_get 2 (users demo_db) =
     Some (2, \<lparr>username = ''bob'', sessionId = ''s2'', isOnline = False, lastSeen = 500\<rparr>) \<and>
   createUser 5000 ''alice'' ''s2'' demo_db = (Inl UsernameTaken, demo_db)"
  by (simp add: createUser_def db_get_def demo_db_def)

text \<open>
  Claim C8, amended. If the session id already has a user row and no row with the
  requested username is online, \<^verbatim>\<open>createUser\<close> succeeds, sets that row's username to the
  requested one, its flag to online and its \<open>lastSeen\<close> to \<open>now\<close>, and returns that row's id.
\<close>

theorem createUser_resume:
  assumes "\<exists>u\<in>set (users d). sessionId (snd u) = sid"
    and "\<forall>u\<in>set (users d). username (snd u) = uname \<longrightarrow> \<not> isOnline (snd u)"
  shows "\<exists>es\<in>set (users d). sessionId (snd es) = sid \<and>
           createUser now uname sid d =
             (Inr (fst es),
              d\<lparr>users := map (\<lambda>u. if fst u = fst es
                     then (fst u, (snd u)\<lparr>username := uname, isOnline := True, lastSeen := now\<rparr>)
                     else u) (users d)\<rparr>)"
proof -
  have "find (\<lambda>u. sessionId (snd u) = sid) (users d) \<noteq> None"
    using assms(1) unfolding find_None_iff by blast
  then obtain es where es: "find (\<lambda>u. sessionId (snd u) = sid) (users d) = Some es"
    by blast
  then have "es \<in> set (users d)" "sessionId (snd es) = sid"
    unfolding find_Some_iff by auto
  then show ?thesis
    using resume_patches_row[OF assms(2) es, of now] by blast
qed

theorem createUser_resume_witness:
  "db_get 2 (users demo_db) =
     Some (2, \<lparr>username = ''bob'', sessionId = ''s2'', isOnline = False, lastSeen = 500\<rparr>) \<and>
   createUser 5000 ''carol'' ''s2'' demo_db =
     (Inr 2,
      demo_db\<lparr>users :=
        [(1, \<lparr>username = ''alice'', sessionId = ''s1'', isOnline = True, lastSeen = 1000\<rparr>),
         (2, \<lparr>username = ''carol'', sessionId = ''s2'', isOnline = True, lastSeen = 5000\<rparr>)]\<rparr>)"
proof -
  have h: "\<exists>u\<in>set (users demo_db). sessionId (snd u) = ''s2''"
    "\<forall>u\<in>set (users demo_db). username (snd u) = ''carol'' \<longrightarrow> \<not> isOnline (snd u)"
    by (simp_all add: demo_db_def)
  from createUser_resume[OF h, of 5000] obtain es where es: "es \<in> set (users demo_db)"
    "sessionId (snd es) = ''s2''"
    "createUser 5000 ''carol'' ''s2'' demo_db =
       (Inr (fst es),
        demo_db\<lparr>users := map (\<lambda>u. if fst u = fst es
           then (fst u, (snd u)\<lparr>username := ''carol'', isOnline := True, lastSeen := 5000\<rparr>)
           else u) (users demo_db)\<rparr>)"
    by blast
  from es(1,2) have "es = (2, \<lparr>username = ''bob'', sessionId = ''s2'', isOnline = False, lastSeen = 500\<rparr>)"
    by (auto simp: demo_db_def)
  with es(3) show ?thesis
    by (simp add: demo_db_def db_get_def)
qed

text \<open>
  Claim C9. If a user row with the requested username is online, \<^verbatim>\<open>createUser\<close> throws
  the username-taken error and the store is the one it was called on, whatever the
  session id, also when the session id is that very row's.
\<close>

theorem createUser_taken_leaves_store:
  assumes "u \<in> set (users d)" and "username (snd u) = uname" and "isOnline (snd u)"
  shows "createUser now uname sid d = (Inl UsernameTaken, d) \<and>
         createUser now uname (sessionId (snd u)) d = (Inl UsernameTaken, d)"
  using taken_throws[OF assms] by simp

theorem createUser_taken_leaves_store_witness:
  "(1, \<lparr>username = ''alice'', sessionId = ''s1'', isOnline = True, lastSeen = 1000\<rparr>)
     \<in> set (users demo_db) \<and>
   createUser 5000 ''alice'' ''s2'' demo_db = (Inl UsernameTaken, demo_db) \<and>
   createUser 5000 ''alice'' ''s1'' demo_db = (Inl UsernameTaken, demo_db)"
proof -
  have h: "(1, \<lparr>username = ''alice'', sessionId = ''s1'', isOnline = True, lastSeen = 1000\<rparr>)
     \<in> set (users demo_db)"
    by (simp add: demo_db_def)
  show ?thesis
    using h createUser_taken_leaves_store[OF h, of "''alice''" 5000 "''s2''"] by simp
qed



end
